theory Spec2Isabelle
  imports Main
begin

section \<open>Values shared by the modules\<close>

text \<open>
  A JavaScript string is a sequence of UTF-16 code units; \<open>length\<close> counts code units.
  Code units are modelled as natural numbers, so every lemma below holds for every
  JavaScript string.  \<open>js\<close> turns an ASCII literal into such a string.
\<close>

type_synonym code_unit = nat
type_synonym jsstring = "code_unit list"

definition js :: "string \<Rightarrow> jsstring" where
  "js s = map of_char s"

text \<open>
  \<open>new Date(x)\<close>: a time value in milliseconds, or the invalid date that
  \<open>new Date(NaN)\<close> yields (\<open>undefined + windowMs\<close> is \<open>NaN\<close>).
\<close>

datatype js_date = Date int | InvalidDate

section \<open>The rate limiter (backend/lib/rateLimit.js)\<close>

record decision =
  allowed :: bool
  remaining :: int
  resetTime :: js_date
  totalHits :: int

text \<open>\<open>this.inMemoryStore\<close>: a \<open>Map\<close> from identifier to its list of timestamps.\<close>

type_synonym memory_store = "jsstring \<rightharpoonup> int list"

text \<open>
  \<open>checkMemoryLimit(identifier, maxRequests, windowMs)\<close>; the value of \<open>Date.now()\<close>
  is the parameter \<open>now\<close>.  The function returns its result and the updated store.
  \<open>validRequests[0]\<close> of an empty array is \<open>undefined\<close>, which gives the invalid date.
\<close>

definition checkMemoryLimit ::
  "memory_store \<Rightarrow> jsstring \<Rightarrow> int \<Rightarrow> int \<Rightarrow> int \<Rightarrow> decision \<times> memory_store" where
  "checkMemoryLimit store identifier maxRequests windowMs now =
     (let windowStart = now - windowMs;
          store1 = (if store identifier = None then store(identifier \<mapsto> []) else store);
          requests = (case store1 identifier of Some r \<Rightarrow> r | None \<Rightarrow> []);
          validRequests = filter (\<lambda>timestamp. timestamp > windowStart) requests;
          store2 = store1(identifier \<mapsto> validRequests)
      in if int (length validRequests) \<ge> maxRequests
         then (\<lparr>allowed = False, remaining = 0,
                resetTime = (case validRequests of [] \<Rightarrow> InvalidDate
                             | t # _ \<Rightarrow> Date (t + windowMs)),
                totalHits = int (length validRequests)\<rparr>, store2)
         else (let pushed = validRequests @ [now]
               in (\<lparr>allowed = True, remaining = maxRequests - int (length pushed),
                    resetTime = Date (now + windowMs),
                    totalHits = int (length pushed)\<rparr>, store2(identifier \<mapsto> pushed))))"

text \<open>The timestamps stored for an identifier (none when the identifier has no entry).\<close>

definition stored :: "memory_store \<Rightarrow> jsstring \<Rightarrow> int list" where
  "stored store identifier = (case store identifier of Some r \<Rightarrow> r | None \<Rightarrow> [])"

text \<open>
  A caller making one check after the other for the same identifier, at the given
  times, with the same \<open>maxRequests\<close> and \<open>windowMs\<close>.
\<close>

fun checks ::
  "memory_store \<Rightarrow> jsstring \<Rightarrow> int \<Rightarrow> int \<Rightarrow> int list \<Rightarrow> decision list \<times> memory_store" where
  "checks store identifier maxRequests windowMs [] = ([], store)"
| "checks store identifier maxRequests windowMs (now # later) =
     (let (d, store') = checkMemoryLimit store identifier maxRequests windowMs now;
          (ds, store'') = checks store' identifier maxRequests windowMs later
      in (d # ds, store''))"

text \<open>
  The callback that \<open>startCleanupTimer\<close> registers, run at time \<open>now\<close>: every entry keeps
  its timestamps of the last five minutes and is deleted when none is left.
\<close>

definition cleanup :: "memory_store \<Rightarrow> int \<Rightarrow> memory_store" where
  "cleanup store now =
     (let fiveMinutesAgo = now - (5 * 60 * 1000)
      in (\<lambda>key. case store key of
                   None \<Rightarrow> None
                 | Some requests \<Rightarrow>
                     (let validRequests = filter (\<lambda>timestamp. timestamp > fiveMinutesAgo) requests
                      in if length validRequests = 0 then None else Some validRequests)))"

text \<open>
  What happens to the store of one limiter over time: checks of any identifier with any
  options, and runs of the cleanup timer.
\<close>

datatype limiter_event =
    Check jsstring int int int  \<comment> \<open>identifier, maxRequests, windowMs, now\<close>
  | Cleanup int  \<comment> \<open>now\<close>

fun event_time :: "limiter_event \<Rightarrow> int" where
  "event_time (Check identifier maxRequests windowMs now) = now"
| "event_time (Cleanup now) = now"

fun limiter_step :: "memory_store \<Rightarrow> limiter_event \<Rightarrow> memory_store" where
  "limiter_step store (Check identifier maxRequests windowMs now) =
     snd (checkMemoryLimit store identifier maxRequests windowMs now)"
| "limiter_step store (Cleanup now) = cleanup store now"

text \<open>Every check of the identifier in the trace uses the given limit and window.\<close>

fun same_options :: "jsstring \<Rightarrow> int \<Rightarrow> int \<Rightarrow> limiter_event \<Rightarrow> bool" where
  "same_options i m w (Check identifier maxRequests windowMs now) =
     (identifier = i \<longrightarrow> maxRequests = m \<and> windowMs = w)"
| "same_options i m w (Cleanup now) = True"

text \<open>A short history: two checks of \<open>a\<close>, a check of \<open>b\<close> in between, and a sweep.\<close>

definition example_history :: "limiter_event list" where
  "example_history =
     [Check (js ''a'') 2 1000 0, Check (js ''b'') 7 50 5, Check (js ''a'') 2 1000 10, Cleanup 20]"

section \<open>The shared store as seen by the code\<close>

text \<open>
  The Redis server is not part of the repository.  A call to it either answers or
  throws; the exception is a value of type \<open>error\<close>, and \<open>try_catch\<close> is the
  \<open>try { ... } catch (error) { ... }\<close> of the source.
\<close>

datatype error = StoreError | TypeError


text \<open>
  \<open>RedisManager\<close> (backend/lib/redis.js): \<open>this.client\<close> is null or a client, and
  \<open>isReady()\<close> is \<open>this.client && this.isConnected\<close>.
\<close>

record redis_manager =
  client :: bool
  isConnected :: bool

definition isReady :: "redis_manager \<Rightarrow> bool" where
  "isReady mgr = (client mgr \<and> isConnected mgr)"





text \<open>
  The \<open>options\<close> argument: a field that is absent is \<open>None\<close>.  The two \<open>skip...\<close>
  options are read and never used.
\<close>

record options =
  opt_maxRequests :: "int option"
  opt_windowMs :: "int option"





text \<open>A manager that is connected, one that is not, and a store whose \<open>zCard\<close> throws.\<close>

definition connected :: redis_manager where
  "connected = \<lparr>client = True, isConnected = True\<rparr>"




section \<open>The message store\<close>

text \<open>
  The Redis list \<open>chat:messages\<close>, head first.  \<open>LRANGE\<close> and \<open>LTRIM\<close> take a range of
  indexes that may be negative (counted from the end) or out of range; \<open>redis_range\<close> is
  the range both commands select, as the Redis documentation gives it: \<open>LRANGE\<close> returns
  it and \<open>LTRIM\<close> keeps it.  \<open>JSON.parse\<close> gives back what \<open>JSON.stringify\<close> was given,
  so the list holds the messages themselves.
\<close>

definition redis_range :: "'a list \<Rightarrow> int \<Rightarrow> int \<Rightarrow> 'a list" where
  "redis_range xs start stop =
     (let llen = int (length xs);
          s0 = (if start < 0 then llen + start else start);
          e0 = (if stop < 0 then llen + stop else stop);
          s1 = (if s0 < 0 then 0 else s0)
      in if s1 > e0 \<or> s1 \<ge> llen then []
         else (let e1 = (if e0 \<ge> llen then llen - 1 else e0)
               in take (nat (e1 - s1 + 1)) (drop (nat s1) xs)))"

text \<open>The commands a call sends; \<open>faults\<close> lists those that throw during the call.\<close>

datatype redis_command = LPush | LTrim | Expire | LRange

text \<open>
  \<open>RedisManager.saveMessage(message, maxMessages)\<close> and \<open>RedisManager.getMessages(count)\<close>
  (backend/lib/redis.js); the defaults are \<open>maxMessages = 100\<close> and \<open>count = 50\<close>.
\<close>

definition RedisManager_saveMessage ::
  "redis_manager \<Rightarrow> redis_command list \<Rightarrow> 'a list \<Rightarrow> 'a \<Rightarrow> int \<Rightarrow> bool \<times> 'a list" where
  "RedisManager_saveMessage mgr faults chat message maxMessages =
     (if \<not> isReady mgr then (False, chat)
      else if LPush \<in> set faults then (False, chat)
      else (let pushed = message # chat
            in if LTrim \<in> set faults then (False, pushed)
               else (let trimmed = redis_range pushed 0 (maxMessages - 1)
                     in if Expire \<in> set faults then (False, trimmed) else (True, trimmed))))"

definition RedisManager_getMessages ::
  "redis_manager \<Rightarrow> redis_command list \<Rightarrow> 'a list \<Rightarrow> int \<Rightarrow> 'a list" where
  "RedisManager_getMessages mgr faults chat count =
     (if \<not> isReady mgr then []
      else if LRange \<in> set faults then []
      else rev (redis_range chat 0 (count - 1)))"

text \<open>
  The store of \<open>ChatServer\<close>: the Redis list and the module's array \<open>messages\<close>.
  \<open>ready\<close> is \<open>redisClient && redisClient.isReady\<close>.
\<close>

record 'a message_store =
  redis_list :: "'a list"
  messages :: "'a list"

text \<open>\<open>messages.push(message); if (messages.length > 100) messages.shift();\<close>\<close>

definition push_shift :: "'a message_store \<Rightarrow> 'a \<Rightarrow> 'a message_store" where
  "push_shift st message =
     (let pushed = messages st @ [message]
      in st\<lparr>messages := (if length pushed > 100 then tl pushed else pushed)\<rparr>)"

definition saveMessage ::
  "bool \<Rightarrow> redis_command list \<Rightarrow> 'a message_store \<Rightarrow> 'a \<Rightarrow> 'a message_store" where
  "saveMessage ready faults st message =
     (if ready
      then (if LPush \<in> set faults then push_shift st message
            else (let st1 = st\<lparr>redis_list := message # redis_list st\<rparr>
                  in if LTrim \<in> set faults then push_shift st1 message
                     else st1\<lparr>redis_list := redis_range (redis_list st1) 0 99\<rparr>))
      else push_shift st message)"

definition getMessages :: "bool \<Rightarrow> redis_command list \<Rightarrow> 'a message_store \<Rightarrow> 'a list" where
  "getMessages ready faults st =
     (if ready
      then (if LRange \<in> set faults then messages st
            else rev (redis_range (redis_list st) 0 (- 1)))
      else messages st)"

definition empty_store :: "'a message_store" where
  "empty_store = \<lparr>redis_list = [], messages = []\<rparr>"

section \<open>JavaScript values and strings\<close>

text \<open>
  What \<open>JSON.parse\<close> can return, and \<open>undefined\<close> for a missing property.  An object
  is the list of its properties in insertion order, with distinct keys; an array is an
  object without the properties read here.  Of a number only being zero matters.
\<close>

datatype jsvalue =
    JUndefined
  | JNull
  | JBool bool
  | JNumber int
  | JString jsstring
  | JObject "(string \<times> jsvalue) list"

text \<open>Truthiness, as \<open>!x\<close>, \<open>x && y\<close> and \<open>x || y\<close> use it.\<close>

fun truthy :: "jsvalue \<Rightarrow> bool" where
  "truthy JUndefined = False"
| "truthy JNull = False"
| "truthy (JBool b) = b"
| "truthy (JNumber n) = (n \<noteq> 0)"
| "truthy (JString s) = (s \<noteq> [])"
| "truthy (JObject props) = True"

text \<open>
  Reading a property: a \<open>TypeError\<close> on \<open>null\<close> and \<open>undefined\<close>, \<open>undefined\<close> on a
  primitive value or when the object has no such property.
\<close>

fun get_property :: "jsvalue \<Rightarrow> string \<Rightarrow> error + jsvalue" where
  "get_property JUndefined name = Inl TypeError"
| "get_property JNull name = Inl TypeError"
| "get_property (JObject props) name =
     Inr (case map_of props name of None \<Rightarrow> JUndefined | Some v \<Rightarrow> v)"
| "get_property v name = Inr JUndefined"

text \<open>\<open>{...message, content: v}\<close>: the property keeps its place, or is added last.\<close>

fun set_property :: "(string \<times> jsvalue) list \<Rightarrow> string \<Rightarrow> jsvalue \<Rightarrow> (string \<times> jsvalue) list" where
  "set_property [] name v = [(name, v)]"
| "set_property ((k, x) # props) name v =
     (if k = name then (k, v) # props else (k, x) # set_property props name v)"

text \<open>
  White space as \<open>String.prototype.trim\<close> and the pattern \<open>\s\<close> know it: tab, line feed,
  vertical tab, form feed, carriage return, space, U+00A0, U+1680, U+2000 to U+200A, U+2028,
  U+2029, U+202F, U+205F, U+3000 and U+FEFF.
\<close>

definition isWhiteSpace :: "code_unit \<Rightarrow> bool" where
  "isWhiteSpace c =
     (c \<in> {9, 10, 11, 12, 13, 32, 160, 5760, 8232, 8233, 8239, 8287, 12288, 65279}
      \<or> (8192 \<le> c \<and> c \<le> 8202))"

definition trim :: "jsstring \<Rightarrow> jsstring" where
  "trim s = rev (dropWhile isWhiteSpace (rev (dropWhile isWhiteSpace s)))"

text \<open>The pattern \<open>\w\<close>: ASCII letters, digits and the underscore.\<close>

definition isWordChar :: "code_unit \<Rightarrow> bool" where
  "isWordChar c = ((48 \<le> c \<and> c \<le> 57) \<or> (65 \<le> c \<and> c \<le> 90) \<or> c = 95 \<or> (97 \<le> c \<and> c \<le> 122))"

text \<open>
  Under the flag \<open>i\<close> (without \<open>u\<close>) an ASCII letter of a pattern matches its two cases
  and no other code unit.  \<open>starts_ci p s\<close>: the string \<open>s\<close> starts with the lower-case
  pattern text \<open>p\<close>, whatever the case of its letters.
\<close>

definition lower :: "code_unit \<Rightarrow> code_unit" where
  "lower c = (if 65 \<le> c \<and> c \<le> 90 then c + 32 else c)"

fun starts_ci :: "jsstring \<Rightarrow> jsstring \<Rightarrow> bool" where
  "starts_ci [] s = True"
| "starts_ci (p # ps) [] = False"
| "starts_ci (p # ps) (c # cs) = (lower c = p \<and> starts_ci ps cs)"

section \<open>The sanitizer and the validator (ServerEncryption, backend/lib/redis.js)\<close>

text \<open>
  Each \<open>replace(pattern, '')\<close> of \<open>sanitizeInput\<close> runs with the flag \<open>g\<close>: from left to
  right, a match at the current position is deleted and the search goes on behind it, and
  where there is no match the code unit is kept.  None of the four patterns matches the
  empty string.

  The first pattern is \<open><script\b[^<]*(?:(?!<\/script>)<[^<]*)*<\/script>\<close>.  After
  \<open><script\<close> and the word boundary, the pattern can only advance from one \<open><\<close> to the
  next, and it must stop at the first \<open><\<close> that starts \<open></script>\<close>, so that a match ends
  with the first \<open></script>\<close> behind the opening.  \<open>after_close s\<close> is what follows the
  first \<open></script>\<close> in \<open>s\<close>, if there is one.
\<close>

fun after_close :: "jsstring \<Rightarrow> jsstring option" where
  "after_close [] = None"
| "after_close (c # cs) =
     (if starts_ci (js ''</script>'') (c # cs) then Some (drop 9 (c # cs)) else after_close cs)"

text \<open>What follows a script block at the start of \<open>s\<close>, if \<open>s\<close> starts with one.\<close>

definition match_script :: "jsstring \<Rightarrow> jsstring option" where
  "match_script s =
     (if starts_ci (js ''<script'') s
      then (case drop 7 s of
              [] \<Rightarrow> None
            | c # cs \<Rightarrow> if isWordChar c then None else after_close (c # cs))
      else None)"

lemma after_close_shorter: "after_close s = Some rest \<Longrightarrow> length rest < length s"
  by (induction s) (auto split: if_splits)

lemma match_script_shorter: "match_script s = Some rest \<Longrightarrow> length rest < length s"
proof -
  assume m: "match_script s = Some rest"
  then obtain c cs where d: "drop 7 s = c # cs" and a: "after_close (c # cs) = Some rest"
    by (auto simp: match_script_def split: if_splits list.splits)
  have "length rest < length (c # cs)"
    using a by (rule after_close_shorter)
  also have "\<dots> \<le> length s"
    using d [symmetric] by simp
  finally show ?thesis .
qed

function removeScripts :: "jsstring \<Rightarrow> jsstring" where
  "removeScripts [] = []"
| "removeScripts (c # cs) =
     (case match_script (c # cs) of
        Some rest \<Rightarrow> removeScripts rest
      | None \<Rightarrow> c # removeScripts cs)"
  by pat_completeness auto
termination
  by (relation "measure length") (auto dest: match_script_shorter)

text \<open>
  The second pattern is \<open><[^>]*>?\<close>: from a less-than sign (code unit 60) up to and
  including the next greater-than sign (code unit 62), or up to the end of the string when
  none follows.  The first argument tells
  whether the scan is inside such a match.
\<close>

fun removeTags :: "bool \<Rightarrow> jsstring \<Rightarrow> jsstring" where
  "removeTags inside [] = []"
| "removeTags False (c # cs) = (if c = 60 then removeTags True cs else c # removeTags False cs)"
| "removeTags True (c # cs) = (if c = 62 then removeTags False cs else removeTags True cs)"

text \<open>The third pattern is \<open>javascript:\<close>, in any case of its letters.\<close>

fun removeJavascript :: "jsstring \<Rightarrow> jsstring" where
  "removeJavascript [] = []"
| "removeJavascript (c # cs) =
     (if starts_ci (js ''javascript:'') (c # cs) then removeJavascript (drop 10 cs)
      else c # removeJavascript cs)"

text \<open>
  The fourth pattern is \<open>on\w+\s*=\s*["'][^"']*["']|on\w+\s*=\s*\w+\<close>.  Both alternatives
  start with \<open>on\<close>, word characters (all of the run: what follows must be white space or
  \<open>=\<close>), white space, \<open>=\<close> and white space.  Then the first wants a quote, anything
  but quotes, and a quote; the second wants word characters, and takes all of the run.
\<close>

definition isQuote :: "code_unit \<Rightarrow> bool" where
  "isQuote c = (c = 34 \<or> c = 39)"

definition match_handler :: "jsstring \<Rightarrow> jsstring option" where
  "match_handler s =
     (if starts_ci (js ''on'') s
      then (let afterOn = drop 2 s;
                afterName = dropWhile isWordChar afterOn
            in if takeWhile isWordChar afterOn = [] then None
               else (case dropWhile isWhiteSpace afterName of
                       [] \<Rightarrow> None
                     | e # afterEq \<Rightarrow>
                         if e \<noteq> 61 then None
                         else (case dropWhile isWhiteSpace afterEq of
                                 [] \<Rightarrow> None
                               | q # afterQuote \<Rightarrow>
                                   if isQuote q
                                   then (case dropWhile (\<lambda>c. \<not> isQuote c) afterQuote of
                                           [] \<Rightarrow> None
                                         | q' # rest \<Rightarrow> Some rest)
                                   else if isWordChar q
                                   then Some (dropWhile isWordChar afterQuote)
                                   else None)))
      else None)"

lemma dropWhile_Cons_shorter: "dropWhile P xs = y # ys \<Longrightarrow> length ys < length xs"
proof -
  assume "dropWhile P xs = y # ys"
  then have "Suc (length ys) = length (dropWhile P xs)"
    by simp
  also have "\<dots> \<le> length xs"
    by (rule length_dropWhile_le)
  finally show ?thesis
    by simp
qed

lemma match_handler_shorter: "match_handler s = Some rest \<Longrightarrow> length rest < length s"
proof -
  assume m: "match_handler s = Some rest"
  let ?afterOn = "drop 2 s"
  let ?afterName = "dropWhile isWordChar ?afterOn"
  from m obtain e afterEq where eq: "dropWhile isWhiteSpace ?afterName = e # afterEq"
    by (auto simp: match_handler_def Let_def split: if_splits list.splits)
  from m eq obtain q afterQuote where qu: "dropWhile isWhiteSpace afterEq = q # afterQuote"
    by (auto simp: match_handler_def Let_def split: if_splits list.splits)
  have 1: "length afterEq < length ?afterName"
    using eq by (rule dropWhile_Cons_shorter)
  have 2: "length ?afterName \<le> length s"
    using length_dropWhile_le [of isWordChar ?afterOn] by simp
  have 3: "length afterQuote < length afterEq"
    using qu by (rule dropWhile_Cons_shorter)
  have 4: "length rest \<le> length afterQuote"
  proof (cases "isQuote q")
    case True
    then obtain q' where "dropWhile (\<lambda>c. \<not> isQuote c) afterQuote = q' # rest"
      using m eq qu by (auto simp: match_handler_def Let_def split: if_splits list.splits)
    then show ?thesis
      using dropWhile_Cons_shorter [of "\<lambda>c. \<not> isQuote c" afterQuote q' rest] by simp
  next
    case False
    then have "rest = dropWhile isWordChar afterQuote"
      using m eq qu by (auto simp: match_handler_def Let_def split: if_splits list.splits)
    then show ?thesis
      by (simp add: length_dropWhile_le)
  qed
  show ?thesis
    using 1 2 3 4 by linarith
qed

function removeHandlers :: "jsstring \<Rightarrow> jsstring" where
  "removeHandlers [] = []"
| "removeHandlers (c # cs) =
     (case match_handler (c # cs) of
        Some rest \<Rightarrow> removeHandlers rest
      | None \<Rightarrow> c # removeHandlers cs)"
  by pat_completeness auto
termination
  by (relation "measure length") (auto dest: match_handler_shorter)

text \<open>
  \<open>sanitizeInput(input)\<close>: the empty string for anything but a string; otherwise
  \<open>trim()\<close>, \<open>substring(0, 1000)\<close> and the four replacements, in this order.
\<close>

fun sanitizeInput :: "jsvalue \<Rightarrow> jsstring" where
  "sanitizeInput (JString input) =
     removeHandlers (removeJavascript (removeTags False (removeScripts (take 1000 (trim input)))))"
| "sanitizeInput v = []"

text \<open>
  \<open>validateMessage(message)\<close>: \<open>{valid: false, error}\<close> is \<open>Rejected error\<close> and
  \<open>{valid: true, sanitized}\<close> is \<open>Accepted sanitized\<close>.
\<close>

datatype validation = Rejected string | Accepted jsvalue

fun validateMessage :: "jsvalue \<Rightarrow> validation" where
  "validateMessage (JObject props) =
     (let content = (case map_of props ''content'' of None \<Rightarrow> JUndefined | Some v \<Rightarrow> v);
          mtype = (case map_of props ''type'' of None \<Rightarrow> JUndefined | Some v \<Rightarrow> v)
      in case content of
           JString str \<Rightarrow>
             if \<not> truthy content then Rejected ''Message content is required''
             else if length str = 0 \<or> length str > 1000
             then Rejected ''Message content length invalid''
             else (case mtype of
                     JString t \<Rightarrow>
                       if \<not> truthy mtype then Rejected ''Message type is required''
                       else (let sanitizedContent = sanitizeInput content
                             in if length sanitizedContent = 0
                                then Rejected ''Message content is empty after sanitization''
                                else Accepted (JObject (set_property props ''content''
                                                 (JString sanitizedContent))))
                   | _ \<Rightarrow> Rejected ''Message type is required'')
         | _ \<Rightarrow> Rejected ''Message content is required'')"
| "validateMessage v = Rejected ''Invalid message format''"

text \<open>A message event as the client sends it: \<open>{type: 'message', content: text}\<close>.\<close>

definition message_event :: "jsstring \<Rightarrow> jsvalue" where
  "message_event str = JObject [(''type'', JString (js ''message'')), (''content'', JString str)]"

text \<open>
  Plain content: text that \<open>trim\<close> leaves as it is and in which no position starts a
  tag, \<open>javascript:\<close> or \<open>on\<close>; the sanitizer has nothing to remove from it.
\<close>

fun no_trigger :: "jsstring \<Rightarrow> bool" where
  "no_trigger [] = True"
| "no_trigger (c # cs) =
     (c \<noteq> 60 \<and> \<not> starts_ci (js ''javascript:'') (c # cs) \<and> \<not> starts_ci (js ''on'') (c # cs)
      \<and> no_trigger cs)"

definition plain :: "jsstring \<Rightarrow> bool" where
  "plain s = (trim s = s \<and> no_trigger s)"

section \<open>The relay (ChatServer)\<close>

text \<open>
  A WebSocket object is known by its identity.  Its \<open>readyState\<close> belongs to the
  transport, not to the relay.  \<open>ws.send\<close> hands a frame to an open transport; on a
  transport that is closing or closed the \<open>ws\<close> library delivers nothing and does not
  throw, and a socket accepted by the server is never in the state \<open>CONNECTING\<close>.
\<close>

type_synonym ws = nat

datatype ready_state = CONNECTING | OPEN | CLOSING | CLOSED

record client_info =
  client_id :: jsstring
  client_color :: jsstring
  joinedAt :: int
  lastActivity :: int

record chat_message =
  msg_id :: jsstring
  msg_content :: jsstring
  msg_timestamp :: int
  msg_userId :: jsstring
  msg_color :: jsstring
  msg_encrypted :: jsvalue

text \<open>
  The events of the wire protocol.  The relay builds \<open>init\<close>, \<open>userCount\<close>,
  \<open>newMessage\<close> and \<open>pong\<close>; no place in its source builds an \<open>error\<close> event, which the
  client knows how to read.  \<open>JSON.stringify\<close> turns an event into the frame that is sent.
\<close>

datatype server_event =
    Init jsstring jsstring "chat_message list"
  | UserCount nat
  | NewMessage chat_message
  | Pong
  | ErrorEvent jsstring "int option"

datatype frame = Frame server_event

definition JSON_stringify :: "server_event \<Rightarrow> frame" where
  "JSON_stringify event = Frame event"

text \<open>
  \<open>this.clients\<close> is a \<open>Map\<close>, which keeps its keys in insertion order; the module's
  store is the one of the previous section.
\<close>

record server =
  clients :: "(ws \<times> client_info) list"
  chat_store :: "chat_message message_store"

fun clients_set :: "(ws \<times> client_info) list \<Rightarrow> ws \<Rightarrow> client_info \<Rightarrow> (ws \<times> client_info) list" where
  "clients_set [] key info = [(key, info)]"
| "clients_set ((k, x) # rest) key info =
     (if k = key then (k, info) # rest else (k, x) # clients_set rest key info)"

definition clients_delete :: "(ws \<times> client_info) list \<Rightarrow> ws \<Rightarrow> (ws \<times> client_info) list" where
  "clients_delete cs key = filter (\<lambda>(k, x). k \<noteq> key) cs"

text \<open>
  What the world supplies while one handler runs: the state of the Redis client and the
  commands that throw, the state of every transport, the clock, and the random identifiers
  (\<open>uuidv4()\<close>, \<open>generateAnonId()\<close>, \<open>generateUserColor()\<close>).  A handler runs to its end
  before the next one starts.
\<close>

record env =
  env_ready :: bool
  env_faults :: "redis_command list"
  env_readyState :: "ws \<Rightarrow> ready_state"
  env_now :: int
  env_uuid :: jsstring
  env_anonId :: jsstring
  env_color :: jsstring

type_synonym sends = "(ws \<times> frame) list"

definition ws_send :: "env \<Rightarrow> ws \<Rightarrow> frame \<Rightarrow> sends" where
  "ws_send e socket data = (if env_readyState e socket = OPEN then [(socket, data)] else [])"

text \<open>\<open>broadcast(message, excludeClient = null)\<close>; \<open>None\<close> is \<open>null\<close>.\<close>

definition broadcast :: "env \<Rightarrow> server \<Rightarrow> server_event \<Rightarrow> ws option \<Rightarrow> sends" where
  "broadcast e srv message excludeClient =
     (let messageStr = JSON_stringify message
      in concat (map (\<lambda>(socket, info).
                        if Some socket \<noteq> excludeClient \<and> env_readyState e socket = OPEN
                        then ws_send e socket messageStr else [])
                   (clients srv)))"

definition handleConnection :: "env \<Rightarrow> server \<Rightarrow> ws \<Rightarrow> server \<times> sends" where
  "handleConnection e srv socket =
     (let userId = env_anonId e;
          userColor = env_color e;
          clientInfo = \<lparr>client_id = userId, client_color = userColor,
                        joinedAt = env_now e, lastActivity = env_now e\<rparr>;
          srv1 = srv\<lparr>clients := clients_set (clients srv) socket clientInfo\<rparr>;
          recentMessages = getMessages (env_ready e) (env_faults e) (chat_store srv1)
      in (srv1,
          ws_send e socket (JSON_stringify (Init userId userColor recentMessages))
          @ broadcast e srv1 (UserCount (length (clients srv1))) None))"

text \<open>The listeners for \<open>close\<close> and \<open>error\<close> that \<open>handleConnection\<close> registers.\<close>

definition on_close :: "env \<Rightarrow> server \<Rightarrow> ws \<Rightarrow> server \<times> sends" where
  "on_close e srv socket =
     (let srv1 = srv\<lparr>clients := clients_delete (clients srv) socket\<rparr>
      in (srv1, broadcast e srv1 (UserCount (length (clients srv1))) None))"

definition on_error :: "env \<Rightarrow> server \<Rightarrow> ws \<Rightarrow> server \<times> sends" where
  "on_error e srv socket = (srv\<lparr>clients := clients_delete (clients srv) socket\<rparr>, [])"

text \<open>
  The object \<open>chatMessage\<close> that \<open>handleMessage\<close> builds from the client's entry, the
  content string and the message: the content is trimmed and cut to 1000 code units, and
  \<open>encrypted\<close> is \<open>message.encrypted || false\<close>.
\<close>

definition new_chat_message :: "env \<Rightarrow> client_info \<Rightarrow> jsstring \<Rightarrow> jsvalue \<Rightarrow> chat_message" where
  "new_chat_message e info str message =
     \<lparr>msg_id = env_uuid e,
      msg_content = take 1000 (trim str),
      msg_timestamp = env_now e,
      msg_userId = client_id info,
      msg_color = client_color info,
      msg_encrypted = (case get_property message ''encrypted'' of
                         Inl err \<Rightarrow> JBool False
                       | Inr v \<Rightarrow> if truthy v then v else JBool False)\<rparr>"

text \<open>
  \<open>handleMessage(ws, message)\<close>.  The result is the new state, the frames sent and the
  exception thrown, if any: reading a property of \<open>null\<close> and calling \<open>trim\<close> on a truthy
  value that is not a string throw a \<open>TypeError\<close>, after \<open>lastActivity\<close> was updated.
\<close>

definition handleMessage ::
  "env \<Rightarrow> server \<Rightarrow> ws \<Rightarrow> jsvalue \<Rightarrow> server \<times> sends \<times> error option" where
  "handleMessage e srv socket message =
     (case map_of (clients srv) socket of
        None \<Rightarrow> (srv, [], None)
      | Some info \<Rightarrow>
          (let srv1 = srv\<lparr>clients :=
                       clients_set (clients srv) socket (info\<lparr>lastActivity := env_now e\<rparr>)\<rparr>
           in case get_property message ''type'' of
                Inl err \<Rightarrow> (srv1, [], Some err)
              | Inr mtype \<Rightarrow>
                  if mtype = JString (js ''message'')
                  then (case get_property message ''content'' of
                          Inl err \<Rightarrow> (srv1, [], Some err)
                        | Inr c \<Rightarrow>
                            if \<not> truthy c then (srv1, [], None)
                            else (case c of
                                    JString str \<Rightarrow>
                                      if length (trim str) > 0
                                      then (let chatMessage = new_chat_message e info str message;
                                                srv2 = srv1\<lparr>chat_store :=
                                                         saveMessage (env_ready e) (env_faults e)
                                                           (chat_store srv1) chatMessage\<rparr>
                                            in (srv2, broadcast e srv2 (NewMessage chatMessage) None,
                                                None))
                                      else (srv1, [], None)
                                  | _ \<Rightarrow> (srv1, [], Some TypeError)))
                  else if mtype = JString (js ''ping'')
                  then (srv1, ws_send e socket (JSON_stringify Pong), None)
                  else (srv1, [], None)))"

text \<open>
  The listener for \<open>message\<close>: \<open>JSON.parse\<close> may throw (\<open>Malformed\<close>), and whatever is
  thrown inside the \<open>try\<close> block is logged and goes no further.
\<close>

datatype incoming = Parsed jsvalue | Malformed

definition on_message :: "env \<Rightarrow> server \<Rightarrow> ws \<Rightarrow> incoming \<Rightarrow> server \<times> sends" where
  "on_message e srv socket data =
     (case data of
        Malformed \<Rightarrow> (srv, [])
      | Parsed message \<Rightarrow>
          (case handleMessage e srv socket message of (srv', out, thrown) \<Rightarrow> (srv', out)))"

text \<open>The transport events that reach the relay, and a history of them.\<close>

datatype transport_event =
    OnConnection ws
  | OnMessage ws incoming
  | OnClose ws
  | OnError ws

fun relay_step :: "server \<Rightarrow> env \<times> transport_event \<Rightarrow> server \<times> sends" where
  "relay_step srv (e, OnConnection socket) = handleConnection e srv socket"
| "relay_step srv (e, OnMessage socket data) = on_message e srv socket data"
| "relay_step srv (e, OnClose socket) = on_close e srv socket"
| "relay_step srv (e, OnError socket) = on_error e srv socket"

definition relay_run :: "server \<Rightarrow> (env \<times> transport_event) list \<Rightarrow> server" where
  "relay_run srv history = foldl (\<lambda>s step. fst (relay_step s step)) srv history"

text \<open>The chat messages among the frames sent, and whether a frame is an \<open>error\<close> event.\<close>

fun new_messages :: "sends \<Rightarrow> chat_message list" where
  "new_messages [] = []"
| "new_messages ((socket, Frame (NewMessage m)) # rest) = m # new_messages rest"
| "new_messages (other # rest) = new_messages rest"

fun is_error_frame :: "ws \<times> frame \<Rightarrow> bool" where
  "is_error_frame (socket, Frame (ErrorEvent text retryAfter)) = True"
| "is_error_frame other = False"

text \<open>An example: two registered clients with open transports, and an empty store.\<close>

definition example_env :: env where
  "example_env = \<lparr>env_ready = False, env_faults = [], env_readyState = (\<lambda>socket. OPEN),
                   env_now = 0, env_uuid = js ''id'', env_anonId = js ''Ghost0001'',
                   env_color = js ''#FF6B6B''\<rparr>"

definition example_server :: server where
  "example_server =
     \<lparr>clients = [(1, \<lparr>client_id = js ''Ghost0001'', client_color = js ''#FF6B6B'',
                       joinedAt = 0, lastActivity = 0\<rparr>),
                 (2, \<lparr>client_id = js ''Shadow0002'', client_color = js ''#4ECDC4'',
                       joinedAt = 0, lastActivity = 0\<rparr>)],
      chat_store = empty_store\<rparr>"

text \<open>
  The state after \<open>handleMessage\<close> has accepted a message \<open>cm\<close> from the client \<open>info\<close>:
  the client's \<open>lastActivity\<close> is updated and the message is saved.
\<close>

definition accepted_state :: "env \<Rightarrow> server \<Rightarrow> ws \<Rightarrow> client_info \<Rightarrow> chat_message \<Rightarrow> server" where
  "accepted_state e srv socket info cm =
     srv\<lparr>clients := clients_set (clients srv) socket (info\<lparr>lastActivity := env_now e\<rparr>),
         chat_store := saveMessage (env_ready e) (env_faults e) (chat_store srv) cm\<rparr>"

text \<open>The first client of the example, and an environment in which the second transport is closed.\<close>

definition example_client :: client_info where
  "example_client = \<lparr>client_id = js ''Ghost0001'', client_color = js ''#FF6B6B'',
                       joinedAt = 0, lastActivity = 0\<rparr>"

definition second_closed :: env where
  "second_closed = example_env\<lparr>env_readyState := (\<lambda>socket. if socket = 2 then CLOSED else OPEN)\<rparr>"

section \<open>Verified properties\<close>

subsection \<open>The in-process rate limiter\<close>


lemma stored_checkMemoryLimit:
  "stored (snd (checkMemoryLimit store i m w now)) i =
     (let v = filter (\<lambda>t. t > now - w) (stored store i)
      in if int (length v) \<ge> m then v else v @ [now])"
  by (simp add: checkMemoryLimit_def stored_def Let_def split: option.splits)

lemma allowed_checkMemoryLimit:
  "allowed (fst (checkMemoryLimit store i m w now)) =
     (int (length (filter (\<lambda>t. t > now - w) (stored store i))) < m)"
  by (auto simp add: checkMemoryLimit_def stored_def Let_def split: option.splits)

lemma remaining_checkMemoryLimit_rejected:
  "\<not> allowed (fst (checkMemoryLimit store i m w now)) \<Longrightarrow>
     remaining (fst (checkMemoryLimit store i m w now)) = 0"
  by (auto simp add: checkMemoryLimit_def stored_def Let_def split: option.splits if_splits)

lemma checks_append:
  "checks store i m w (xs @ ys) =
     (let (ds, s1) = checks store i m w xs; (es, s2) = checks s1 i m w ys
      in (ds @ es, s2))"
  by (induction xs arbitrary: store) (auto simp: Let_def split: prod.splits)

lemma checks_all_admitted:
  assumes "\<forall>t\<in>set ts. \<forall>r\<in>set (stored store i). t - w < r"
    and "\<forall>t\<in>set ts. \<forall>t'\<in>set ts. t' - w < t"
    and "length (stored store i) + length ts \<le> m"
  shows "map allowed (fst (checks store i (int m) w ts)) = replicate (length ts) True
         \<and> stored (snd (checks store i (int m) w ts)) i = stored store i @ ts"
  using assms
proof (induction ts arbitrary: store)
  case Nil
  then show ?case by simp
next
  case (Cons t ts)
  obtain d s1 where step: "checkMemoryLimit store i (int m) w t = (d, s1)"
    by (cases "checkMemoryLimit store i (int m) w t")
  have keep: "filter (\<lambda>r. r > t - w) (stored store i) = stored store i"
    using Cons.prems(1) by (auto simp: filter_id_conv)
  have small: "int (length (stored store i)) < int m"
    using Cons.prems(3) by simp
  have d: "allowed d"
    using allowed_checkMemoryLimit [of store i "int m" w t] keep small step by simp
  have s1: "stored s1 i = stored store i @ [t]"
    using stored_checkMemoryLimit [of store i "int m" w t] keep small step
    by (simp add: Let_def)
  have "map allowed (fst (checks s1 i (int m) w ts)) = replicate (length ts) True
        \<and> stored (snd (checks s1 i (int m) w ts)) i = stored s1 i @ ts"
  proof (rule Cons.IH)
    show "\<forall>t\<in>set ts. \<forall>r\<in>set (stored s1 i). t - w < r"
      using Cons.prems(1,2) s1 by auto
    show "\<forall>t\<in>set ts. \<forall>t'\<in>set ts. t' - w < t"
      using Cons.prems(2) by auto
    show "length (stored s1 i) + length ts \<le> m"
      using Cons.prems(3) s1 by simp
  qed
  then show ?case
    using step d s1 by (cases "checks s1 i (int m) w ts") simp
qed

text \<open>
  C3.  For a fresh identifier (no entry in the store), any limit \<open>m\<close> and any window \<open>w\<close>:
  when \<open>m + 1\<close> admission checks are made at times that all lie within one window of each
  other (any two differ by less than \<open>w\<close>), the first \<open>m\<close> return \<open>allowed = true\<close> and the
  \<open>(m+1)\<close>-th returns \<open>allowed = false\<close> with \<open>remaining = 0\<close>.
\<close>

theorem checkMemoryLimit_admits_first_m:
  assumes fresh: "store ident = None"
    and count: "length ts = m"
    and window: "\<forall>t\<in>set (ts @ [t']). \<forall>u\<in>set (ts @ [t']). u - w < t"
  shows "map allowed (fst (checks store ident (int m) w (ts @ [t'])))
           = replicate m True @ [False]
         \<and> remaining (last (fst (checks store ident (int m) w (ts @ [t'])))) = 0"
proof -
  obtain ds s1 where run: "checks store ident (int m) w ts = (ds, s1)"
    by (cases "checks store ident (int m) w ts")
  have empty: "stored store ident = []"
    using fresh by (simp add: stored_def)
  have "map allowed (fst (checks store ident (int m) w ts)) = replicate (length ts) True
        \<and> stored (snd (checks store ident (int m) w ts)) ident
            = stored store ident @ ts"
  proof (rule checks_all_admitted)
    show "\<forall>t\<in>set ts. \<forall>r\<in>set (stored store ident). t - w < r"
      using empty by simp
    show "\<forall>t\<in>set ts. \<forall>t'\<in>set ts. t' - w < t"
      using window by auto
    show "length (stored store ident) + length ts \<le> m"
      using empty count by simp
  qed
  then have ds: "map allowed ds = replicate m True" and s1: "stored s1 ident = ts"
    using run count empty by simp_all
  obtain d s2 where last_step: "checkMemoryLimit s1 ident (int m) w t' = (d, s2)"
    by (cases "checkMemoryLimit s1 ident (int m) w t'")
  have keep: "filter (\<lambda>r. r > t' - w) ts = ts"
    using window by (auto simp: filter_id_conv)
  have rejected: "\<not> allowed d"
    using allowed_checkMemoryLimit [of s1 ident "int m" w t'] last_step s1 keep count
    by simp
  then have zero: "remaining d = 0"
    using remaining_checkMemoryLimit_rejected [of s1 ident "int m" w t'] last_step
    by simp
  have "checks store ident (int m) w (ts @ [t']) = (ds @ [d], s2)"
    using run last_step by (simp add: checks_append Let_def)
  then show ?thesis
    using ds rejected zero by simp
qed


theorem checkMemoryLimit_admits_first_m_witness:
  "map allowed (fst (checks Map.empty (js ''a'') 20 60000 (map int [1..<21] @ [21])))
     = replicate 20 True @ [False]
   \<and> remaining (last (fst (checks Map.empty (js ''a'') 20 60000 (map int [1..<21] @ [21])))) = 0"
proof -
  have fresh: "(Map.empty :: memory_store) (js ''a'') = None"
    by simp
  have count: "length (map int [1..<21]) = 20"
    by simp
  have window: "\<forall>t\<in>set (map int [1..<21] @ [21]). \<forall>u\<in>set (map int [1..<21] @ [21]). u - 60000 < t"
    by auto
  show ?thesis
    using checkMemoryLimit_admits_first_m [OF fresh count window] by simp
qed

lemma stored_other_identifier:
  "i \<noteq> j \<Longrightarrow> stored (snd (checkMemoryLimit store j m w now)) i = stored store i"
  by (simp add: checkMemoryLimit_def stored_def Let_def)

lemma stored_cleanup:
  "stored (cleanup store now) i = filter (\<lambda>t. t > now - 300000) (stored store i)"
  by (simp add: cleanup_def stored_def Let_def split: option.splits)

lemma store_checkMemoryLimit:
  "snd (checkMemoryLimit s i m w now) =
     s(i \<mapsto> (let v = filter (\<lambda>t. t > now - w) (stored s i)
               in if int (length v) \<ge> m then v else v @ [now]))"
  by (cases "s i") (simp_all add: checkMemoryLimit_def stored_def Let_def)

lemma rejected_store:
  "\<not> allowed (fst (checkMemoryLimit s i m w now)) \<Longrightarrow>
      snd (checkMemoryLimit s i m w now) = s(i \<mapsto> filter (\<lambda>t. t > now - w) (stored s i))"
  by (simp add: store_checkMemoryLimit allowed_checkMemoryLimit Let_def)

lemma length_filter_bounded:
  assumes "int (length xs) \<le> m"
  shows "int (length (filter P xs)) \<le> m"
proof -
  have "length (filter P xs) \<le> length xs"
    by (rule length_filter_le)
  then show ?thesis
    using assms by linarith
qed

lemma limiter_invariant:
  assumes "0 \<le> m"
    and "sorted (map event_time evs)"
    and "\<forall>ev\<in>set evs. event_time ev \<le> T"
    and "\<forall>ev\<in>set evs. same_options i m w ev"
  shows "int (length (stored (foldl limiter_step Map.empty evs) i)) \<le> m
         \<and> (\<forall>t\<in>set (stored (foldl limiter_step Map.empty evs) i). t \<le> T)"
  using assms(2-4)
proof (induction evs rule: rev_induct)
  case Nil
  then show ?case using assms(1) by (simp add: stored_def)
next
  case (snoc ev evs)
  let ?s = "foldl limiter_step Map.empty evs"
  have IH: "int (length (stored ?s i)) \<le> m" "\<forall>t\<in>set (stored ?s i). t \<le> T"
    using snoc by (auto simp: sorted_append)
  show ?case
  proof (cases ev)
    case (Check j m' w' now)
    show ?thesis
    proof (cases "j = i")
      case True
      then have opts: "m' = m" "w' = w" and now: "now \<le> T"
        using snoc.prems Check by auto
      have len: "int (length (filter (\<lambda>t. t > now - w) (stored ?s i))) \<le> m"
        using IH(1) by (rule length_filter_bounded)
      show ?thesis
        using IH len now
        by (auto simp: Check True opts stored_checkMemoryLimit Let_def)
    next
      case False
      then show ?thesis
        using IH by (simp add: Check stored_other_identifier)
    qed
  next
    case (Cleanup now)
    have len: "int (length (filter (\<lambda>t. t > now - 300000) (stored ?s i))) \<le> m"
      using IH(1) by (rule length_filter_bounded)
    show ?thesis
      using IH len by (auto simp: Cleanup stored_cleanup)
  qed
qed

lemma ball_interval: "\<forall>t\<in>S. a < t \<and> t \<le> b \<Longrightarrow> S \<subseteq> {a<..b}"
  by auto

text \<open>
  C10.  In the in-process backend, take an identifier all of whose checks use the same
  \<open>maxRequests \<ge> 0\<close> and \<open>windowMs > 0\<close>, in any history of checks (of any identifier) and
  cleanup sweeps on a limiter that started empty, with a clock that does not run backwards.
  After every check of the identifier its stored list has at most \<open>maxRequests\<close> entries, each
  within the trailing \<open>windowMs\<close> of that check, and a check that returns \<open>allowed = false\<close>
  leaves the store as it was except that the identifier keeps only its unexpired entries.
\<close>

theorem checkMemoryLimit_record_invariant:
  assumes limit: "0 \<le> m"
    and width: "0 < w"
    and clock: "sorted (map event_time (evs @ [Check i m w now]))"
    and options: "\<forall>ev\<in>set evs. same_options i m w ev"
  shows "int (length (stored (foldl limiter_step Map.empty (evs @ [Check i m w now])) i)) \<le> m
         \<and> (\<forall>t\<in>set (stored (foldl limiter_step Map.empty (evs @ [Check i m w now])) i).
               now - w < t \<and> t \<le> now)
         \<and> (\<not> allowed (fst (checkMemoryLimit (foldl limiter_step Map.empty evs) i m w now)) \<longrightarrow>
               foldl limiter_step Map.empty (evs @ [Check i m w now])
                 = (foldl limiter_step Map.empty evs)
                     (i \<mapsto> filter (\<lambda>t. t > now - w) (stored (foldl limiter_step Map.empty evs) i)))"
proof -
  let ?s = "foldl limiter_step Map.empty evs"
  have before: "int (length (stored ?s i)) \<le> m \<and> (\<forall>t\<in>set (stored ?s i). t \<le> now)"
  proof (rule limiter_invariant)
    show "0 \<le> m" by (rule limit)
    show "sorted (map event_time evs)"
      using clock by (simp add: sorted_append)
    show "\<forall>ev\<in>set evs. event_time ev \<le> now"
      using clock by (simp add: sorted_append)
    show "\<forall>ev\<in>set evs. same_options i m w ev" by (rule options)
  qed
  have len: "int (length (filter (\<lambda>t. t > now - w) (stored ?s i))) \<le> m"
    by (rule length_filter_bounded) (simp add: before)
  have size: "int (length (stored (snd (checkMemoryLimit ?s i m w now)) i)) \<le> m"
    using before len by (auto simp: stored_checkMemoryLimit Let_def)
  have inside: "\<forall>t\<in>set (stored (snd (checkMemoryLimit ?s i m w now)) i). now - w < t \<and> t \<le> now"
    using before width by (auto simp: stored_checkMemoryLimit Let_def)
  have rejected: "\<not> allowed (fst (checkMemoryLimit ?s i m w now)) \<longrightarrow>
      snd (checkMemoryLimit ?s i m w now) = ?s(i \<mapsto> filter (\<lambda>t. t > now - w) (stored ?s i))"
    by (simp add: rejected_store)
  have run: "foldl limiter_step Map.empty (evs @ [Check i m w now])
               = snd (checkMemoryLimit ?s i m w now)"
    by simp
  show ?thesis
    unfolding run using size inside rejected by blast
qed


theorem checkMemoryLimit_record_invariant_witness:
  "int (length (stored (foldl limiter_step Map.empty
       (example_history @ [Check (js ''a'') 2 1000 30])) (js ''a''))) \<le> 2
   \<and> set (stored (foldl limiter_step Map.empty
       (example_history @ [Check (js ''a'') 2 1000 30])) (js ''a'')) \<subseteq> {30 - 1000 <.. 30}
   \<and> \<not> allowed (fst (checkMemoryLimit (foldl limiter_step Map.empty example_history)
         (js ''a'') 2 1000 30))
   \<and> foldl limiter_step Map.empty (example_history @ [Check (js ''a'') 2 1000 30])
       = (foldl limiter_step Map.empty example_history)
           (js ''a'' \<mapsto> filter (\<lambda>t. t > 30 - 1000)
              (stored (foldl limiter_step Map.empty example_history) (js ''a'')))"
proof -
  have limit: "(0::int) \<le> 2" by simp
  have width: "(0::int) < 1000" by simp
  have clock: "sorted (map event_time (example_history @ [Check (js ''a'') 2 1000 30]))"
    by (simp add: example_history_def)
  have options: "\<forall>ev\<in>set example_history. same_options (js ''a'') 2 1000 ev"
    by (simp add: example_history_def js_def)
  have differ: "js ''a'' \<noteq> js ''b''"
    by (simp add: js_def)
  have before: "stored (foldl limiter_step Map.empty example_history) (js ''a'') = [0, 10]"
    by (simp add: example_history_def stored_cleanup stored_other_identifier
        stored_checkMemoryLimit differ) (simp add: stored_def)
  have rejected: "\<not> allowed (fst (checkMemoryLimit (foldl limiter_step Map.empty example_history)
         (js ''a'') 2 1000 30))"
    by (simp add: allowed_checkMemoryLimit before)
  note inv = checkMemoryLimit_record_invariant [OF limit width clock options]
  show ?thesis
    using inv [THEN conjunct1]
      ball_interval [OF inv [THEN conjunct2, THEN conjunct1]]
      rejected
      inv [THEN conjunct2, THEN conjunct2, THEN mp, OF rejected]
    by (intro conjI)
qed


subsection \<open>Fallback of the rate limiter\<close>







subsection \<open>The message store\<close>

lemma redis_range_take:
  "0 \<le> stop \<Longrightarrow> redis_range xs 0 stop = take (nat (stop + 1)) xs"
  by (cases xs) (auto simp: redis_range_def Let_def)

lemma redis_range_all: "redis_range xs 0 (- 1) = xs"
  by (cases xs) (auto simp: redis_range_def Let_def)

lemma rev_take_rev: "rev (take n (rev xs)) = drop (length xs - n) xs"
  by (simp add: rev_take)

lemma take_Cons_take: "take (Suc n) (x # take (Suc n) xs) = take (Suc n) (x # xs)"
  by (simp add: min_def)

lemma memory_run:
  "messages (foldl (saveMessage False faults) empty_store ms) = drop (length ms - 100) ms"
proof (induction ms rule: rev_induct)
  case Nil
  then show ?case by (simp add: empty_store_def)
next
  case (snoc m ms)
  show ?case
  proof (cases "length ms < 100")
    case True
    then show ?thesis
      using snoc by (simp add: saveMessage_def push_shift_def Let_def)
  next
    case False
    then have full: "length (drop (length ms - 100) ms) = 100"
      and next_index: "Suc (length ms - 100) = length ms - 99"
      by simp_all
    show ?thesis
      using snoc False full next_index
      by (simp add: saveMessage_def push_shift_def Let_def drop_Suc [symmetric] tl_drop)
  qed
qed

lemma shared_run:
  "redis_list (foldl (saveMessage True []) empty_store ms) = take 100 (rev ms)"
proof (induction ms rule: rev_induct)
  case Nil
  then show ?case by (simp add: empty_store_def)
next
  case (snoc m ms)
  have "take (Suc 99) (m # take (Suc 99) (rev ms)) = take (Suc 99) (m # rev ms)"
    by (rule take_Cons_take)
  then show ?case
    using snoc by (simp add: saveMessage_def redis_range_take Let_def)
qed

lemma manager_run:
  assumes "isReady mgr"
  shows "foldl (\<lambda>chat m. snd (RedisManager_saveMessage mgr [] chat m 100)) [] ms
           = take 100 (rev ms)"
proof (induction ms rule: rev_induct)
  case Nil
  then show ?case by simp
next
  case (snoc m ms)
  have "take (Suc 99) (m # take (Suc 99) (rev ms)) = take (Suc 99) (m # rev ms)"
    by (rule take_Cons_take)
  then show ?case
    using snoc assms by (simp add: RedisManager_saveMessage_def redis_range_take Let_def)
qed

lemma saveMessage_bounded:
  "length (messages st) \<le> 100 \<Longrightarrow> length (messages (saveMessage up failing st m)) \<le> 100"
  by (auto simp: saveMessage_def push_shift_def Let_def)

lemma array_bounded:
  "length (messages (foldl (\<lambda>st (up, failing, m). saveMessage up failing st m)
                       empty_store history)) \<le> 100"
proof (induction history rule: rev_induct)
  case Nil
  then show ?case by (simp add: empty_store_def)
next
  case (snoc step history)
  obtain up failing m where step: "step = (up, failing, m)"
    by (cases step)
  show ?case
    using snoc by (simp add: step saveMessage_bounded)
qed

text \<open>
  C4.  Start from an empty store and append the messages \<open>ms\<close> in order.  With the
  in-process backend, with the shared store of \<open>ChatServer\<close> and with the shared store of
  \<open>RedisManager\<close> (capacity 100, query for 100, store ready and answering), the store then holds
  at most 100 messages, and the recent-messages query returns the last 100 messages of \<open>ms\<close>
  (all of them when there are fewer), oldest first: what was evicted is exactly the oldest.
  The in-process array holds at most 100 messages after any history of appends, whatever the
  state of the shared store was at each of them.
\<close>

theorem store_keeps_newest_100:
  assumes ready: "isReady mgr"
  shows "getMessages False faults (foldl (saveMessage False faults') empty_store ms)
           = drop (length ms - 100) ms
         \<and> length (messages (foldl (saveMessage False faults') empty_store ms)) \<le> 100
         \<and> getMessages True [] (foldl (saveMessage True []) empty_store ms)
           = drop (length ms - 100) ms
         \<and> length (redis_list (foldl (saveMessage True []) empty_store ms)) \<le> 100
         \<and> RedisManager_getMessages mgr []
             (foldl (\<lambda>chat m. snd (RedisManager_saveMessage mgr [] chat m 100)) [] ms) 100
           = drop (length ms - 100) ms
         \<and> length (foldl (\<lambda>chat m. snd (RedisManager_saveMessage mgr [] chat m 100)) [] ms)
             \<le> 100
         \<and> length (messages (foldl (\<lambda>st (up, failing, m). saveMessage up failing st m)
                                empty_store history)) \<le> 100"
proof (intro conjI)
  show "length (messages (foldl (\<lambda>st (up, failing, m). saveMessage up failing st m)
                            empty_store history)) \<le> 100"
    by (rule array_bounded)
  show "getMessages False faults (foldl (saveMessage False faults') empty_store ms)
          = drop (length ms - 100) ms"
    by (simp add: getMessages_def memory_run)
  show "length (messages (foldl (saveMessage False faults') empty_store ms)) \<le> 100"
    by (simp add: memory_run)
  show "getMessages True [] (foldl (saveMessage True []) empty_store ms)
          = drop (length ms - 100) ms"
    by (simp add: getMessages_def shared_run redis_range_all rev_take_rev)
  show "length (redis_list (foldl (saveMessage True []) empty_store ms)) \<le> 100"
    by (simp add: shared_run)
  show "RedisManager_getMessages mgr []
          (foldl (\<lambda>chat m. snd (RedisManager_saveMessage mgr [] chat m 100)) [] ms) 100
        = drop (length ms - 100) ms"
    using ready
    by (simp add: RedisManager_getMessages_def manager_run redis_range_take rev_take_rev)
  show "length (foldl (\<lambda>chat m. snd (RedisManager_saveMessage mgr [] chat m 100)) [] ms)
          \<le> 100"
    using ready by (simp add: manager_run)
qed

theorem store_keeps_newest_100_witness:
  "getMessages False [] (foldl (saveMessage False []) empty_store [1 ..< 151]) = [51 ..< 151]
   \<and> getMessages True [] (foldl (saveMessage True []) empty_store [1 ..< 151]) = [51 ..< 151]
   \<and> RedisManager_getMessages connected []
        (foldl (\<lambda>chat m. snd (RedisManager_saveMessage connected [] chat m 100)) []
           [1 ..< 151]) 100
      = [51 ..< 151]"
proof -
  have ready: "isReady connected"
    by (simp add: isReady_def connected_def)
  have last: "drop (length [1 ..< 151] - 100) [1 ..< 151] = [51 ..< 151]"
    by (simp add: drop_upt)
  show ?thesis
    using store_keeps_newest_100 [OF ready, of "[]" "[]" "[1 ..< 151]" "[]"]
    unfolding last by blast
qed


subsection \<open>The sanitizer and the validator\<close>

lemma lower_60: "lower c = 60 \<longleftrightarrow> c = 60"
  by (auto simp: lower_def)

lemma match_script_None: "c \<noteq> 60 \<Longrightarrow> match_script (c # cs) = None"
  by (simp add: match_script_def js_def lower_60)

lemma removeScripts_plain: "no_trigger s \<Longrightarrow> removeScripts s = s"
  by (induction s) (simp_all add: match_script_None)

lemma removeTags_plain: "no_trigger s \<Longrightarrow> removeTags False s = s"
  by (induction s) simp_all

lemma removeJavascript_plain: "no_trigger s \<Longrightarrow> removeJavascript s = s"
  by (induction s) simp_all

lemma match_handler_None: "\<not> starts_ci (js ''on'') s \<Longrightarrow> match_handler s = None"
  by (simp add: match_handler_def)

lemma removeHandlers_plain: "no_trigger s \<Longrightarrow> removeHandlers s = s"
  by (induction s) (simp_all add: match_handler_None)

lemma sanitizeInput_plain:
  "plain s \<Longrightarrow> length s \<le> 1000 \<Longrightarrow> sanitizeInput (JString s) = s"
  by (simp add: plain_def removeScripts_plain removeTags_plain removeJavascript_plain
      removeHandlers_plain)

lemma plain_replicate: "plain (replicate n 97)"
proof -
  have "no_trigger (replicate n 97)"
    by (induction n) (simp_all add: js_def lower_def)
  moreover have "dropWhile isWhiteSpace (replicate n 97) = replicate n 97"
    by (cases n) (simp_all add: isWhiteSpace_def)
  ultimately show ?thesis
    by (simp add: plain_def trim_def)
qed

lemma removeTags_no_lt: "60 \<notin> set (removeTags b s)"
  by (induction b s rule: removeTags.induct) auto

lemma set_removeJavascript: "set (removeJavascript s) \<subseteq> set s"
proof (induction s rule: removeJavascript.induct)
  case 1
  then show ?case by simp
next
  case (2 c cs)
  have "set (drop 10 cs) \<subseteq> set cs" by (rule set_drop_subset)
  with 2 show ?case by auto
qed

lemma match_handler_subset: "match_handler s = Some rest \<Longrightarrow> set rest \<subseteq> set s"
proof -
  assume m: "match_handler s = Some rest"
  let ?afterOn = "drop 2 s"
  let ?afterName = "dropWhile isWordChar ?afterOn"
  from m obtain e afterEq where eq: "dropWhile isWhiteSpace ?afterName = e # afterEq"
    by (auto simp: match_handler_def Let_def split: if_splits list.splits)
  from m eq obtain q afterQuote where qu: "dropWhile isWhiteSpace afterEq = q # afterQuote"
    by (auto simp: match_handler_def Let_def split: if_splits list.splits)
  have 1: "set afterEq \<subseteq> set ?afterName"
    using set_dropWhileD [of _ isWhiteSpace ?afterName] eq by auto
  have 2: "set ?afterName \<subseteq> set s"
    using set_dropWhileD [of _ isWordChar ?afterOn] set_drop_subset [of 2 s] by auto
  have 3: "set afterQuote \<subseteq> set afterEq"
    using set_dropWhileD [of _ isWhiteSpace afterEq] qu by auto
  have 4: "set rest \<subseteq> set afterQuote"
  proof (cases "isQuote q")
    case True
    then obtain q' where "dropWhile (\<lambda>c. \<not> isQuote c) afterQuote = q' # rest"
      using m eq qu by (auto simp: match_handler_def Let_def split: if_splits list.splits)
    then show ?thesis
      using set_dropWhileD [of _ "\<lambda>c. \<not> isQuote c" afterQuote] by auto
  next
    case False
    then have "rest = dropWhile isWordChar afterQuote"
      using m eq qu by (auto simp: match_handler_def Let_def split: if_splits list.splits)
    then show ?thesis
      using set_dropWhileD [of _ isWordChar afterQuote] by auto
  qed
  show ?thesis
    using 1 2 3 4 by blast
qed

lemma set_removeHandlers: "set (removeHandlers s) \<subseteq> set s"
proof (induction s rule: removeHandlers.induct)
  case 1
  then show ?case by simp
next
  case (2 c cs)
  show ?case
  proof (cases "match_handler (c # cs)")
    case None
    then show ?thesis using 2 by auto
  next
    case (Some rest)
    then show ?thesis
      using 2 match_handler_subset [OF Some] by auto
  qed
qed

lemma length_removeScripts: "length (removeScripts s) \<le> length s"
proof (induction s rule: removeScripts.induct)
  case 1
  then show ?case by simp
next
  case (2 c cs)
  show ?case
  proof (cases "match_script (c # cs)")
    case None
    then show ?thesis using 2 by simp
  next
    case (Some rest)
    then show ?thesis
      using 2 match_script_shorter [OF Some] by simp
  qed
qed

lemma length_removeTags: "length (removeTags b s) \<le> length s"
  by (induction b s rule: removeTags.induct) auto

lemma length_removeJavascript: "length (removeJavascript s) \<le> length s"
  by (induction s rule: removeJavascript.induct) auto

lemma length_removeHandlers: "length (removeHandlers s) \<le> length s"
proof (induction s rule: removeHandlers.induct)
  case 1
  then show ?case by simp
next
  case (2 c cs)
  show ?case
  proof (cases "match_handler (c # cs)")
    case None
    then show ?thesis using 2 by simp
  next
    case (Some rest)
    then show ?thesis
      using 2 match_handler_shorter [OF Some] by simp
  qed
qed

lemma sanitize_length: "length (sanitizeInput v) \<le> 1000"
proof (cases v)
  case (JString s)
  have "length (sanitizeInput v) \<le> length (take 1000 (trim s))"
    unfolding JString sanitizeInput.simps
    by (meson length_removeHandlers length_removeJavascript length_removeTags
        length_removeScripts order_trans)
  then show ?thesis by simp
qed simp_all

lemma sanitize_no_lt: "60 \<notin> set (sanitizeInput v)"
proof (cases v)
  case (JString s)
  show ?thesis
    unfolding JString sanitizeInput.simps
    using set_removeHandlers set_removeJavascript removeTags_no_lt by blast
qed simp_all


lemma validateMessage_cases:
  assumes "map_of props ''content'' = Some (JString s)"
  shows "validateMessage (JObject props) =
     (if s = [] then Rejected ''Message content is required''
      else if length s > 1000 then Rejected ''Message content length invalid''
      else (case map_of props ''type'' of
              Some (JString t) \<Rightarrow>
                if t = [] then Rejected ''Message type is required''
                else if sanitizeInput (JString s) = []
                then Rejected ''Message content is empty after sanitization''
                else Accepted (JObject (set_property props ''content''
                                 (JString (sanitizeInput (JString s)))))
            | _ \<Rightarrow> Rejected ''Message type is required''))"
proof (cases "s = []")
  case True
  then show ?thesis
    using assms by (simp add: Let_def)
next
  case False
  then show ?thesis
    using assms
    by (cases "map_of props ''type''") (auto simp: Let_def split: jsvalue.splits)
qed

text \<open>
  C5.  For a message object whose \<open>content\<close> is the string \<open>s\<close>: the validator rejects it
  when \<open>s\<close> has length 0 and when \<open>s\<close> is longer than 1000 (so at length 1001), the latter
  with the length error.  When the message has a non-empty string \<open>type\<close> and \<open>s\<close> has a
  length from 1 to 1000 (so at lengths 1 and 1000), plain content is accepted unchanged,
  and content that the sanitizer reduces to the empty string is rejected with an error of
  its own, which is returned in the result and differs from the length error.
\<close>

theorem validateMessage_bounds:
  assumes content: "map_of props ''content'' = Some (JString s)"
  shows "(length s = 0 \<longrightarrow>
            validateMessage (JObject props) = Rejected ''Message content is required'')
         \<and> (length s > 1000 \<longrightarrow>
            validateMessage (JObject props) = Rejected ''Message content length invalid'')
         \<and> (map_of props ''type'' = Some (JString t) \<and> t \<noteq> []
              \<and> 1 \<le> length s \<and> length s \<le> 1000 \<and> plain s \<longrightarrow>
            validateMessage (JObject props)
              = Accepted (JObject (set_property props ''content'' (JString s))))
         \<and> (map_of props ''type'' = Some (JString t) \<and> t \<noteq> []
              \<and> 1 \<le> length s \<and> length s \<le> 1000 \<and> sanitizeInput (JString s) = [] \<longrightarrow>
            validateMessage (JObject props)
              = Rejected ''Message content is empty after sanitization'')
         \<and> ''Message content is empty after sanitization'' \<noteq> ''Message content length invalid''"
proof (intro conjI impI)
  assume "length s = 0"
  then show "validateMessage (JObject props) = Rejected ''Message content is required''"
    by (simp add: validateMessage_cases [OF content] del: validateMessage.simps)
next
  assume "length s > 1000"
  then show "validateMessage (JObject props) = Rejected ''Message content length invalid''"
    by (auto simp: validateMessage_cases [OF content] simp del: validateMessage.simps)
next
  assume a: "map_of props ''type'' = Some (JString t) \<and> t \<noteq> []
    \<and> 1 \<le> length s \<and> length s \<le> 1000 \<and> plain s"
  then have same: "sanitizeInput (JString s) = s"
    using sanitizeInput_plain [of s] by blast
  have "s \<noteq> []"
    using a by auto
  then show "validateMessage (JObject props)
      = Accepted (JObject (set_property props ''content'' (JString s)))"
    using a
    by (simp add: validateMessage_cases [OF content] same
        del: validateMessage.simps sanitizeInput.simps)
next
  assume a: "map_of props ''type'' = Some (JString t) \<and> t \<noteq> []
    \<and> 1 \<le> length s \<and> length s \<le> 1000 \<and> sanitizeInput (JString s) = []"
  then have "s \<noteq> []"
    by auto
  then show "validateMessage (JObject props)
      = Rejected ''Message content is empty after sanitization''"
    using a
    by (simp add: validateMessage_cases [OF content]
        del: validateMessage.simps sanitizeInput.simps)
next
  show "''Message content is empty after sanitization'' \<noteq> ''Message content length invalid''"
    by simp
qed

theorem validateMessage_bounds_witness:
  "validateMessage (message_event []) = Rejected ''Message content is required''
   \<and> validateMessage (message_event (replicate 1001 97))
       = Rejected ''Message content length invalid''
   \<and> validateMessage (message_event (replicate 1 97)) = Accepted (message_event (replicate 1 97))
   \<and> validateMessage (message_event (replicate 1000 97))
       = Accepted (message_event (replicate 1000 97))
   \<and> validateMessage (message_event (js ''<script>alert(1)</script>''))
       = Rejected ''Message content is empty after sanitization''"
proof -
  have inst: "(length s = 0 \<longrightarrow>
            validateMessage (message_event s) = Rejected ''Message content is required'')
         \<and> (length s > 1000 \<longrightarrow>
            validateMessage (message_event s) = Rejected ''Message content length invalid'')
         \<and> (1 \<le> length s \<and> length s \<le> 1000 \<and> plain s \<longrightarrow>
            validateMessage (message_event s) = Accepted (message_event s))
         \<and> (1 \<le> length s \<and> length s \<le> 1000 \<and> sanitizeInput (JString s) = [] \<longrightarrow>
            validateMessage (message_event s)
              = Rejected ''Message content is empty after sanitization'')" for s
    using validateMessage_bounds
      [of "[(''type'', JString (js ''message'')), (''content'', JString s)]" s "js ''message''"]
    by (simp add: message_event_def js_def)
  have script: "sanitizeInput (JString (js ''<script>alert(1)</script>'')) = []"
    by (simp add: js_def trim_def isWhiteSpace_def match_script_def isWordChar_def lower_def)
  have size: "length (js ''<script>alert(1)</script>'') = 25"
    by (simp add: js_def)
  have zero: "validateMessage (message_event []) = Rejected ''Message content is required''"
    using inst [of "[]"] by simp
  have long: "validateMessage (message_event (replicate 1001 97))
      = Rejected ''Message content length invalid''"
    using inst [of "replicate 1001 97"] by simp
  have one: "validateMessage (message_event (replicate 1 97))
      = Accepted (message_event (replicate 1 97))"
    using inst [of "replicate 1 97"] plain_replicate [of 1] by simp
  have thousand: "validateMessage (message_event (replicate 1000 97))
      = Accepted (message_event (replicate 1000 97))"
    using inst [of "replicate 1000 97"] plain_replicate [of 1000] by simp
  have emptied: "validateMessage (message_event (js ''<script>alert(1)</script>''))
      = Rejected ''Message content is empty after sanitization''"
    using inst [of "js ''<script>alert(1)</script>''"] script size by simp
  show ?thesis
    using zero long one thousand emptied by blast
qed

text \<open>
  C6 (as amended).  For a string, \<open>sanitizeInput\<close> first trims and truncates to 1000 code
  units and then removes script blocks, tags, \<open>javascript:\<close> and event-handler attributes,
  each in one pass from left to right; for any other value it returns the empty string.
  The output never exceeds 1000 code units and contains no less-than sign, hence neither
  a markup tag nor a script block.
\<close>

theorem sanitizeInput_bounded_no_markup:
  "length (sanitizeInput v) \<le> 1000
   \<and> 60 \<notin> set (sanitizeInput v)
   \<and> sanitizeInput (JString s)
       = removeHandlers (removeJavascript (removeTags False (removeScripts (take 1000 (trim s)))))
   \<and> sanitizeInput JNull = [] \<and> sanitizeInput JUndefined = []
   \<and> sanitizeInput (JBool b) = [] \<and> sanitizeInput (JNumber n) = []
   \<and> sanitizeInput (JObject props) = []"
  using sanitize_length [of v] sanitize_no_lt [of v] by auto

theorem sanitizeInput_bounded_no_markup_witness:
  "length (sanitizeInput (JString (js ''<b> hi''))) \<le> 1000
   \<and> 60 \<notin> set (sanitizeInput (JString (js ''<b> hi'')))
   \<and> sanitizeInput (JString (js ''<b> hi'')) = js '' hi''"
proof -
  have out: "sanitizeInput (JString (js ''<b> hi'')) = js '' hi''"
    by (simp add: js_def trim_def isWhiteSpace_def match_script_def match_handler_def
        isWordChar_def lower_def isQuote_def)
  note bounds = sanitizeInput_bounded_no_markup [of "JString (js ''<b> hi'')" "js ''<b> hi''"]
  show ?thesis
    using bounds [THEN conjunct1] bounds [THEN conjunct2, THEN conjunct1] out
    by (intro conjI)
qed

theorem sanitizeInput_counterexample:
  "sanitizeInput (JString (js ''<b> hi'')) = js '' hi''
   \<and> trim (js '' hi'') \<noteq> js '' hi''
   \<and> sanitizeInput (JString (js ''javajavascript:script:alert(1)'')) = js ''javascript:alert(1)''
   \<and> sanitizeInput (JString (js ''oonclick=\"a\"nclick=\"a\"'')) = js ''onclick=\"a\"''"
  by (simp add: js_def trim_def isWhiteSpace_def match_script_def match_handler_def
      isWordChar_def lower_def isQuote_def)


subsection \<open>The relay\<close>

lemma set_broadcast:
  "(socket, f) \<in> set (broadcast e srv message exclude) \<longleftrightarrow>
     f = JSON_stringify message \<and> socket \<in> fst ` set (clients srv)
     \<and> Some socket \<noteq> exclude \<and> env_readyState e socket = OPEN"
  by (force simp: broadcast_def ws_send_def Let_def split: if_splits)

lemma keys_clients_set: "fst ` set (clients_set cs k v) = insert k (fst ` set cs)"
  by (induction cs k v rule: clients_set.induct) auto

lemma keys_clients_delete: "fst ` set (clients_delete cs k) = fst ` set cs - {k}"
  by (force simp: clients_delete_def)

lemma registered_key: "map_of cs k = Some v \<Longrightarrow> k \<in> fst ` set cs"
  by (metis map_of_eq_None_iff option.distinct(1))

lemma handleMessage_accepted:
  assumes "map_of (clients srv) socket = Some info"
    and "get_property message ''type'' = Inr (JString (js ''message''))"
    and "get_property message ''content'' = Inr (JString str)"
    and "trim str \<noteq> []"
  shows "handleMessage e srv socket message
           = (accepted_state e srv socket info (new_chat_message e info str message),
              broadcast e (accepted_state e srv socket info (new_chat_message e info str message))
                (NewMessage (new_chat_message e info str message)) None,
              None)"
proof -
  have "str \<noteq> []"
    using assms(4) by (auto simp: trim_def)
  then show ?thesis
    using assms by (simp add: handleMessage_def accepted_state_def Let_def)
qed

lemma new_messages_broadcast:
  "new_messages (broadcast e srv (NewMessage cm) exclude)
     = replicate (length (broadcast e srv (NewMessage cm) exclude)) cm"
proof -
  have "\<forall>x\<in>set out. snd x = Frame (NewMessage cm) \<Longrightarrow> new_messages out = replicate (length out) cm"
    for out
    by (induction out) auto
  moreover have "\<forall>x\<in>set (broadcast e srv (NewMessage cm) exclude). snd x = Frame (NewMessage cm)"
    using set_broadcast [of _ _ e srv "NewMessage cm" exclude] by (auto simp: JSON_stringify_def)
  ultimately show ?thesis by blast
qed

lemma new_messages_ws_send_Pong: "new_messages (ws_send e socket (JSON_stringify Pong)) = []"
  by (simp add: ws_send_def JSON_stringify_def)

lemma handleMessage_new_message:
  assumes "cm \<in> set (new_messages (fst (snd (handleMessage e srv socket message))))"
  shows "\<exists>info str. map_of (clients srv) socket = Some info
           \<and> get_property message ''type'' = Inr (JString (js ''message''))
           \<and> get_property message ''content'' = Inr (JString str)
           \<and> trim str \<noteq> []
           \<and> cm = new_chat_message e info str message"
  using assms
  by (auto simp: handleMessage_def Let_def new_messages_broadcast new_messages_ws_send_Pong
      split: option.splits sum.splits if_splits jsvalue.splits)

lemma no_error_broadcast:
  "x \<in> set (broadcast e srv message exclude) \<Longrightarrow> is_error_frame x \<Longrightarrow> \<exists>t r. message = ErrorEvent t r"
  by (cases x; cases message) (auto simp: set_broadcast JSON_stringify_def)

lemma handleMessage_no_error:
  "x \<in> set (fst (snd (handleMessage e srv socket message))) \<Longrightarrow> \<not> is_error_frame x"
  by (auto simp: handleMessage_def Let_def ws_send_def JSON_stringify_def
      dest: no_error_broadcast
      split: option.splits sum.splits if_splits jsvalue.splits)


lemma unregistered_message:
  "map_of (clients srv) socket = None \<Longrightarrow> on_message e srv socket data = (srv, [])"
  by (cases data) (simp_all add: on_message_def handleMessage_def)

lemma keys_handleMessage:
  "fst ` set (clients (fst (handleMessage e srv socket message))) = fst ` set (clients srv)"
proof (cases "map_of (clients srv) socket")
  case None
  then show ?thesis by (simp add: handleMessage_def)
next
  case (Some info)
  then have "insert socket (fst ` set (clients srv)) = fst ` set (clients srv)"
    using registered_key [OF Some] by auto
  then show ?thesis
    using Some
    by (auto simp: handleMessage_def Let_def keys_clients_set
        split: sum.splits if_splits jsvalue.splits)
qed

lemma keys_relay_step:
  "ev \<noteq> OnConnection socket \<Longrightarrow> socket \<notin> fst ` set (clients srv) \<Longrightarrow>
     socket \<notin> fst ` set (clients (fst (relay_step srv (e, ev))))"
proof (cases ev)
  case (OnConnection other)
  assume "ev \<noteq> OnConnection socket" "socket \<notin> fst ` set (clients srv)"
  then show ?thesis
    using OnConnection by (simp add: handleConnection_def Let_def keys_clients_set)
next
  case (OnMessage other data)
  assume absent: "socket \<notin> fst ` set (clients srv)"
  show ?thesis
  proof (cases data)
    case (Parsed message)
    have "fst (on_message e srv other (Parsed message)) = fst (handleMessage e srv other message)"
      by (simp add: on_message_def split: prod.splits)
    then show ?thesis
      using absent OnMessage Parsed keys_handleMessage [of e srv other message] by simp
  next
    case Malformed
    then show ?thesis
      using absent OnMessage by (simp add: on_message_def)
  qed
next
  case (OnClose other)
  assume "socket \<notin> fst ` set (clients srv)"
  then show ?thesis
    using OnClose by (simp add: on_close_def Let_def keys_clients_delete)
next
  case (OnError other)
  assume "socket \<notin> fst ` set (clients srv)"
  then show ?thesis
    using OnError by (simp add: on_error_def keys_clients_delete)
qed

lemma keys_relay_run:
  "\<forall>step\<in>set history. snd step \<noteq> OnConnection socket \<Longrightarrow>
   socket \<notin> fst ` set (clients srv) \<Longrightarrow>
     socket \<notin> fst ` set (clients (relay_run srv history))"
proof (induction history arbitrary: srv)
  case Nil
  then show ?case by (simp add: relay_run_def)
next
  case (Cons step history)
  obtain e ev where step: "step = (e, ev)"
    by (cases step)
  have "socket \<notin> fst ` set (clients (fst (relay_step srv (e, ev))))"
    using Cons.prems step by (intro keys_relay_step) auto
  then have "socket \<notin> fst ` set (clients (relay_run (fst (relay_step srv (e, ev))) history))"
    using Cons.prems by (intro Cons.IH) auto
  then show ?case
    by (simp add: relay_run_def step)
qed

lemma closing_removes:
  assumes "closing = OnClose socket \<or> closing = OnError socket"
  shows "socket \<notin> fst ` set (clients (fst (relay_step srv (e, closing))))"
proof -
  have "socket \<notin> fst ` set (clients_delete (clients srv) socket)"
    by (simp add: keys_clients_delete)
  then show ?thesis
    using assms by (auto simp: on_close_def on_error_def Let_def)
qed

text \<open>
  C9.  When a connection is closed (its \<open>close\<close> or its \<open>error\<close> event is handled) it is
  removed from the registry, and as long as that socket is not connected again, whatever
  else happens, a message event for it (a chat message, a ping or anything else) leaves the
  whole state of the relay, the message store included, as it was and sends nothing: no
  broadcast and no response.
\<close>

theorem closed_connection_is_ignored:
  assumes closing: "closing = OnClose socket \<or> closing = OnError socket"
    and later: "\<forall>step\<in>set later. snd step \<noteq> OnConnection socket"
  shows "socket \<notin> fst ` set (clients (relay_run srv ((e0, closing) # later)))
         \<and> relay_step (relay_run srv ((e0, closing) # later)) (e, OnMessage socket data)
             = (relay_run srv ((e0, closing) # later), [])"
proof -
  let ?closed = "relay_run srv ((e0, closing) # later)"
  have "socket \<notin> fst ` set (clients (fst (relay_step srv (e0, closing))))"
    using closing by (rule closing_removes)
  then have "socket \<notin> fst ` set (clients (relay_run (fst (relay_step srv (e0, closing))) later))"
    using later by (intro keys_relay_run)
  then have absent: "socket \<notin> fst ` set (clients ?closed)"
    by (simp add: relay_run_def)
  then have "map_of (clients ?closed) socket = None"
    by (simp add: map_of_eq_None_iff)
  then have "on_message e ?closed socket data = (?closed, [])"
    by (rule unregistered_message)
  then show ?thesis
    using absent by simp
qed

theorem closed_connection_is_ignored_witness:
  "1 \<notin> fst ` set (clients (relay_run example_server
       ((example_env, OnClose 1)
        # [(example_env, OnMessage 2 (Parsed (message_event (js ''hi''))))])))
   \<and> relay_step (relay_run example_server
         ((example_env, OnClose 1)
          # [(example_env, OnMessage 2 (Parsed (message_event (js ''hi''))))]))
       (example_env, OnMessage 1 (Parsed (message_event (js ''late''))))
     = (relay_run example_server
         ((example_env, OnClose 1)
          # [(example_env, OnMessage 2 (Parsed (message_event (js ''hi''))))]), [])"
proof (rule closed_connection_is_ignored)
  show "OnClose 1 = OnClose 1 \<or> OnClose 1 = OnError 1"
    by simp
  show "\<forall>step\<in>set [(example_env, OnMessage 2 (Parsed (message_event (js ''hi''))))].
      snd step \<noteq> OnConnection 1"
    by simp
qed



text \<open>
  C1 (as amended).  A \<open>newMessage\<close> broadcast by \<open>handleMessage\<close> comes from a registered
  sender and from an event of type \<open>message\<close> whose content is a string that is not empty
  after trimming, and it carries that content trimmed and cut to 1000 code units.  In the
  other direction, every such event is saved and broadcast, in every state of the relay and at
  every time: the relay consults neither the rate limiter nor the validator.
\<close>

theorem handleMessage_broadcast_condition:
  "(cm \<in> set (new_messages (fst (snd (handleMessage e srv socket message)))) \<longrightarrow>
      (\<exists>info str. map_of (clients srv) socket = Some info
         \<and> get_property message ''type'' = Inr (JString (js ''message''))
         \<and> get_property message ''content'' = Inr (JString str)
         \<and> trim str \<noteq> []
         \<and> cm = new_chat_message e info str message
         \<and> msg_content cm = take 1000 (trim str)))
   \<and> (map_of (clients srv) socket = Some info
        \<and> get_property message ''type'' = Inr (JString (js ''message''))
        \<and> get_property message ''content'' = Inr (JString str) \<and> trim str \<noteq> [] \<longrightarrow>
        handleMessage e srv socket message
          = (accepted_state e srv socket info (new_chat_message e info str message),
             broadcast e (accepted_state e srv socket info (new_chat_message e info str message))
               (NewMessage (new_chat_message e info str message)) None,
             None))"
proof (intro conjI impI)
  assume "cm \<in> set (new_messages (fst (snd (handleMessage e srv socket message))))"
  then obtain info str where found: "map_of (clients srv) socket = Some info
         \<and> get_property message ''type'' = Inr (JString (js ''message''))
         \<and> get_property message ''content'' = Inr (JString str)
         \<and> trim str \<noteq> []
         \<and> cm = new_chat_message e info str message"
    using handleMessage_new_message by blast
  then have "msg_content cm = take 1000 (trim str)"
    by (simp add: new_chat_message_def)
  then show "\<exists>info str. map_of (clients srv) socket = Some info
         \<and> get_property message ''type'' = Inr (JString (js ''message''))
         \<and> get_property message ''content'' = Inr (JString str)
         \<and> trim str \<noteq> []
         \<and> cm = new_chat_message e info str message
         \<and> msg_content cm = take 1000 (trim str)"
    using found by blast
next
  assume "map_of (clients srv) socket = Some info
        \<and> get_property message ''type'' = Inr (JString (js ''message''))
        \<and> get_property message ''content'' = Inr (JString str) \<and> trim str \<noteq> []"
  then show "handleMessage e srv socket message
          = (accepted_state e srv socket info (new_chat_message e info str message),
             broadcast e (accepted_state e srv socket info (new_chat_message e info str message))
               (NewMessage (new_chat_message e info str message)) None,
             None)"
    by (simp add: handleMessage_accepted)
qed


theorem handleMessage_broadcast_condition_witness:
  "handleMessage second_closed example_server 1 (message_event (js ''hi''))
     = (accepted_state second_closed example_server 1 example_client
          (new_chat_message second_closed example_client (js ''hi'') (message_event (js ''hi''))),
        broadcast second_closed
          (accepted_state second_closed example_server 1 example_client
             (new_chat_message second_closed example_client (js ''hi'') (message_event (js ''hi''))))
          (NewMessage
             (new_chat_message second_closed example_client (js ''hi'') (message_event (js ''hi''))))
          None,
        None)"
proof -
  have registered: "map_of (clients example_server) 1 = Some example_client"
    by (simp add: example_server_def example_client_def)
  have kind: "get_property (message_event (js ''hi'')) ''type'' = Inr (JString (js ''message''))"
    by (simp add: message_event_def)
  have body: "get_property (message_event (js ''hi'')) ''content'' = Inr (JString (js ''hi''))"
    by (simp add: message_event_def)
  have visible: "trim (js ''hi'') \<noteq> []"
    by (simp add: js_def trim_def isWhiteSpace_def)
  note accepted = handleMessage_broadcast_condition
    [of "new_chat_message second_closed example_client (js ''hi'') (message_event (js ''hi''))"
        second_closed example_server 1 "message_event (js ''hi'')" example_client "js ''hi''",
     THEN conjunct2, THEN mp]
  show ?thesis
    using registered kind body visible by (intro accepted conjI)
qed

theorem relay_broadcasts_unvalidated_counterexample:
  "map msg_content (new_messages (fst (snd
      (handleMessage example_env example_server 1 (message_event (js ''<b>''))))))
     = [js ''<b>'', js ''<b>'']
   \<and> validateMessage (message_event (js ''<b>''))
       = Rejected ''Message content is empty after sanitization''"
proof (intro conjI)
  show "map msg_content (new_messages (fst (snd
      (handleMessage example_env example_server 1 (message_event (js ''<b>''))))))
     = [js ''<b>'', js ''<b>'']"
    by (simp add: handleMessage_def example_server_def example_env_def message_event_def
        broadcast_def ws_send_def JSON_stringify_def new_chat_message_def Let_def
        js_def trim_def isWhiteSpace_def)
  show "validateMessage (message_event (js ''<b>''))
       = Rejected ''Message content is empty after sanitization''"
    by (simp add: message_event_def js_def trim_def isWhiteSpace_def match_script_def
        isWordChar_def lower_def)
qed

lemma handleMessage_blank:
  assumes "map_of (clients srv) socket = Some info"
    and "get_property message ''type'' = Inr (JString (js ''message''))"
    and "get_property message ''content'' = Inr c"
    and "\<not> truthy c \<or> (\<exists>str. c = JString str \<and> trim str = [])"
  shows "fst (snd (handleMessage e srv socket message)) = []
         \<and> chat_store (fst (handleMessage e srv socket message)) = chat_store srv
         \<and> snd (snd (handleMessage e srv socket message)) = None"
  using assms by (auto simp: handleMessage_def Let_def)

text \<open>
  C2 (as amended).  \<open>handleMessage\<close> never sends an \<open>error\<close> event, and it consults
  neither the rate limiter nor the validator.  A message event of a registered sender whose
  content is missing, empty or white space only is discarded silently: nothing is sent to
  anyone, the message store is unchanged and nothing is thrown.
\<close>

theorem handleMessage_sends_no_error:
  "(\<forall>x\<in>set (fst (snd (handleMessage e srv socket message))). \<not> is_error_frame x)
   \<and> (map_of (clients srv) socket = Some info
        \<and> get_property message ''type'' = Inr (JString (js ''message''))
        \<and> get_property message ''content'' = Inr c
        \<and> (\<not> truthy c \<or> (\<exists>str. c = JString str \<and> trim str = [])) \<longrightarrow>
        fst (snd (handleMessage e srv socket message)) = []
        \<and> chat_store (fst (handleMessage e srv socket message)) = chat_store srv
        \<and> snd (snd (handleMessage e srv socket message)) = None)"
proof (intro conjI impI ballI)
  fix x
  assume "x \<in> set (fst (snd (handleMessage e srv socket message)))"
  then show "\<not> is_error_frame x"
    by (rule handleMessage_no_error)
next
  assume blank: "map_of (clients srv) socket = Some info
        \<and> get_property message ''type'' = Inr (JString (js ''message''))
        \<and> get_property message ''content'' = Inr c
        \<and> (\<not> truthy c \<or> (\<exists>str. c = JString str \<and> trim str = []))"
  have all: "fst (snd (handleMessage e srv socket message)) = []
         \<and> chat_store (fst (handleMessage e srv socket message)) = chat_store srv
         \<and> snd (snd (handleMessage e srv socket message)) = None"
    using blank by (intro handleMessage_blank) blast+
  show "fst (snd (handleMessage e srv socket message)) = []"
    using all by blast
  show "chat_store (fst (handleMessage e srv socket message)) = chat_store srv"
    using all by blast
  show "snd (snd (handleMessage e srv socket message)) = None"
    using all by blast
qed

theorem handleMessage_sends_no_error_witness:
  "fst (snd (handleMessage example_env example_server 1 (message_event (js ''   '')))) = []
   \<and> chat_store (fst (handleMessage example_env example_server 1 (message_event (js ''   ''))))
       = chat_store example_server
   \<and> snd (snd (handleMessage example_env example_server 1 (message_event (js ''   '')))) = None"
proof -
  have registered: "map_of (clients example_server) 1 = Some example_client"
    by (simp add: example_server_def example_client_def)
  have kind: "get_property (message_event (js ''   '')) ''type'' = Inr (JString (js ''message''))"
    by (simp add: message_event_def)
  have body: "get_property (message_event (js ''   '')) ''content'' = Inr (JString (js ''   ''))"
    by (simp add: message_event_def)
  have blank: "\<not> truthy (JString (js ''   ''))
      \<or> (\<exists>str. JString (js ''   '') = JString str \<and> trim str = [])"
    by (simp add: js_def trim_def isWhiteSpace_def)
  note silent = handleMessage_sends_no_error
    [of example_env example_server 1 "message_event (js ''   '')" example_client
        "JString (js ''   '')", THEN conjunct2, THEN mp]
  show ?thesis
    using registered kind body blank by (intro silent conjI)
qed

theorem relay_answers_no_error_counterexample:
  "validateMessage (message_event (js ''   ''))
     = Rejected ''Message content is empty after sanitization''
   \<and> fst (snd (handleMessage example_env example_server 1 (message_event (js ''   '')))) = []
   \<and> validateMessage (message_event (js ''<i>''))
       = Rejected ''Message content is empty after sanitization''
   \<and> map msg_content (messages (chat_store (fst
        (handleMessage example_env example_server 1 (message_event (js ''<i>''))))))
       = [js ''<i>'']
   \<and> map msg_content (new_messages (fst (snd
        (handleMessage example_env example_server 1 (message_event (js ''<i>''))))))
       = [js ''<i>'', js ''<i>'']"
proof (intro conjI)
  show "validateMessage (message_event (js ''   ''))
     = Rejected ''Message content is empty after sanitization''"
    by (simp add: message_event_def js_def trim_def isWhiteSpace_def)
  show "fst (snd (handleMessage example_env example_server 1 (message_event (js ''   '')))) = []"
    by (simp add: handleMessage_def example_server_def message_event_def Let_def
        js_def trim_def isWhiteSpace_def)
  show "validateMessage (message_event (js ''<i>''))
       = Rejected ''Message content is empty after sanitization''"
    by (simp add: message_event_def js_def trim_def isWhiteSpace_def match_script_def
        isWordChar_def lower_def)
  show "map msg_content (messages (chat_store (fst
        (handleMessage example_env example_server 1 (message_event (js ''<i>''))))))
       = [js ''<i>'']"
    by (simp add: handleMessage_def example_server_def example_env_def message_event_def
        new_chat_message_def Let_def js_def trim_def isWhiteSpace_def saveMessage_def
        push_shift_def empty_store_def)
  show "map msg_content (new_messages (fst (snd
        (handleMessage example_env example_server 1 (message_event (js ''<i>''))))))
       = [js ''<i>'', js ''<i>'']"
    by (simp add: handleMessage_def example_server_def example_env_def message_event_def
        broadcast_def ws_send_def JSON_stringify_def new_chat_message_def Let_def
        js_def trim_def isWhiteSpace_def)
qed

end
